theory Spec2Isabelle
  imports Main "HOL-Library.Multiset"
begin

section \<open>Data model of calendar.ts\<close>

text \<open>
  Instants are JavaScript millisecond timestamps (\<open>valueOf()\<close> of a dayjs object), modelled
  as \<open>int\<close>. A \<open>TimeSlot\<close> of the source holds the two instants as ISO strings written by
  \<open>dayjs(ms).tz(tz).toISOString()\<close> and read back by \<open>dayjs(iso).valueOf()\<close>; the string is
  the UTC rendering of the instant with millisecond precision, so the record below keeps
  the instant itself. The field \<open>end\<close> of the source is called \<open>end'\<close> here.
\<close>

record TimeSlot =
  start :: int
  end' :: int

datatype AvailabilityCase = A | B | C

text \<open>The field \<open>case\<close> of the source is called \<open>avCase\<close>.\<close>

record AvailabilityResult =
  avCase :: AvailabilityCase
  freeSlots :: "TimeSlot list"
  peakFreeSlots :: "TimeSlot list"
  isWeekend :: bool
  todayLabel :: string

text \<open>\<open>{ start: number; end: number }\<close>, the hours of a peak window.\<close>

record PeakRange =
  startHour :: int
  endHour :: int

record PeakHours =
  weekday :: PeakRange
  weekend :: PeakRange

text \<open>
  A calendar event as far as \<open>getAvailability\<close> reads it: \<open>evStart e = Some t\<close> says that
  \<open>e.start\<close> is present and that \<open>dayjs(e.start.dateTime ?? e.start.date ?? undefined)\<close>
  denotes the instant \<open>t\<close>; \<open>None\<close> says that \<open>e.start\<close> is missing. Likewise for \<open>evEnd\<close>.
\<close>

record Event =
  evStart :: "int option"
  evEnd :: "int option"

text \<open>
  A time zone is the name that the source passes to dayjs, \<open>Asia/Tokyo\<close> by default.
\<close>

type_synonym timezone = string

definition msPerHour :: int where
  "msPerHour = 3600000"

definition msPerDay :: int where
  "msPerDay = 86400000"

section \<open>The calls into dayjs\<close>

text \<open>
  dayjs and its timezone plugin are a library outside the repository, and what they
  return depends on the time-zone database and on the zone of the process. The calls
  that \<open>getAvailability\<close> makes are therefore a parameter of the model. With
  \<open>now = dayjs().tz(tz)\<close> read at the instant \<open>t\<close>: \<open>startOfDay tz t\<close> is
  \<open>now.startOf('day').valueOf()\<close>, \<open>endOfDay tz t\<close> is \<open>now.endOf('day').valueOf()\<close>,
  \<open>dayOfWeek tz t\<close> is \<open>now.day()\<close> (0 for Sunday, 6 for Saturday), and \<open>setHour tz d h\<close> is
  \<open>d.hour(h).valueOf()\<close> for the dayjs object of the instant \<open>d\<close> in the zone \<open>tz\<close>.
\<close>

record Dayjs =
  startOfDay :: "timezone \<Rightarrow> int \<Rightarrow> int"
  endOfDay :: "timezone \<Rightarrow> int \<Rightarrow> int"
  dayOfWeek :: "timezone \<Rightarrow> int \<Rightarrow> int"
  setHour :: "timezone \<Rightarrow> int \<Rightarrow> int \<Rightarrow> int"

text \<open>
  The library for a zone whose offset from UTC is the constant \<open>off\<close> milliseconds, in a
  process whose own zone has no daylight saving: \<open>Asia/Tokyo\<close>, with \<open>off = 32400000\<close>, in
  the UTC process that the comments of the source name. There \<open>startOf('day')\<close> sets
  the local hour, minute, second and millisecond to zero, \<open>endOf('day')\<close> sets them to
  23:59:59.999 (the unit tests of the repository rely on it: the hour of \<open>DAY_END\<close> is
  23), \<open>hour(h)\<close> replaces the local hour, and the day of the week counts from Thursday,
  1 January 1970. Zones with daylight saving are not described by it.
\<close>

definition dayjsFixedOffset :: "int \<Rightarrow> Dayjs" where
  "dayjsFixedOffset off =
     \<lparr>startOfDay = (\<lambda>tz now. now - (now + off) mod msPerDay),
      endOfDay = (\<lambda>tz now. now - (now + off) mod msPerDay + (msPerDay - 1)),
      dayOfWeek = (\<lambda>tz now. ((now + off) div msPerDay + 4) mod 7),
      setHour = (\<lambda>tz d h. d - ((d + off) mod msPerDay div msPerHour) * msPerHour
                               + h * msPerHour)\<rparr>"

section \<open>calcFreeSlots\<close>

text \<open>
  The \<open>for\<close> loop over the sorted intervals, with its two variables \<open>cursor\<close> and
  \<open>freeSlots\<close> passed along.
\<close>

fun sweep :: "(int \<times> int) list \<Rightarrow> int \<Rightarrow> TimeSlot list \<Rightarrow> int \<times> TimeSlot list" where
  "sweep [] cursor slots = (cursor, slots)"
| "sweep ((bStart, bEnd) # rest) cursor slots =
     sweep rest (max cursor bEnd)
       (if bStart > cursor then slots @ [\<lparr>start = cursor, end' = bStart\<rparr>] else slots)"

text \<open>
  \<open>[...busyIntervals].sort((a, b) => a[0] - b[0])\<close> is a stable sort on the first
  component, as \<open>sort_key fst\<close> is. The argument \<open>tz\<close> only reaches \<open>toISOString\<close>, whose
  result does not depend on it.
\<close>

definition calcFreeSlots :: "int \<Rightarrow> int \<Rightarrow> (int \<times> int) list \<Rightarrow> timezone \<Rightarrow> TimeSlot list" where
  "calcFreeSlots dayStart dayEnd busyIntervals tz =
     (let sorted = sort_key fst busyIntervals;
          (cursor, slots) = sweep sorted dayStart []
      in if cursor < dayEnd then slots @ [\<lparr>start = cursor, end' = dayEnd\<rparr>] else slots)"

section \<open>getAvailability\<close>

text \<open>
  The two \<open>filter\<close>s and the \<open>map\<close> that compute \<open>peakFreeSlots\<close> from \<open>freeSlots\<close>.
\<close>

definition peakFreeSlotsOf :: "int \<Rightarrow> int \<Rightarrow> TimeSlot list \<Rightarrow> TimeSlot list" where
  "peakFreeSlotsOf peakStart peakEnd slots =
     filter (\<lambda>slot. end' slot > start slot)
       (map (\<lambda>slot. \<lparr>start = max (start slot) peakStart, end' = min (end' slot) peakEnd\<rparr>)
          (filter (\<lambda>slot. start slot < peakEnd \<and> end' slot > peakStart) slots))"

text \<open>
  \<open>events.filter(e => e.start && e.end).map(...)\<close>: the events that have both ends, as
  pairs of instants.
\<close>

fun busyIntervalsOf :: "Event list \<Rightarrow> (int \<times> int) list" where
  "busyIntervalsOf [] = []"
| "busyIntervalsOf (e # es) =
     (case (evStart e, evEnd e) of
        (Some s, Some t) \<Rightarrow> (s, t) # busyIntervalsOf es
      | _ \<Rightarrow> busyIntervalsOf es)"

text \<open>
  \<open>getAvailability\<close> after the calendar request has answered: \<open>dayjs\<close> is the library,
  \<open>now\<close> the instant read from the clock, \<open>events\<close> the items of the response, \<open>label\<close>
  the string \<open>formatTodayLabel(now)\<close>.
\<close>

definition getAvailability ::
  "Dayjs \<Rightarrow> PeakHours \<Rightarrow> timezone \<Rightarrow> int \<Rightarrow> string \<Rightarrow> Event list \<Rightarrow> AvailabilityResult" where
  "getAvailability dayjs peakHours tz now label events =
     (let todayStart = startOfDay dayjs tz now;
          todayEnd = endOfDay dayjs tz now;
          weekendDay = (dayOfWeek dayjs tz now = 0 \<or> dayOfWeek dayjs tz now = 6)
      in if length events = 0 then
           \<lparr>avCase = B,
            freeSlots = [\<lparr>start = todayStart, end' = todayEnd\<rparr>],
            peakFreeSlots = [],
            isWeekend = weekendDay,
            todayLabel = label\<rparr>
         else
           (let busyIntervals = busyIntervalsOf events;
                free = calcFreeSlots todayStart todayEnd busyIntervals tz;
                peak = (if weekendDay then weekend peakHours else weekday peakHours);
                peakStart = setHour dayjs tz todayStart (startHour peak);
                peakEnd = setHour dayjs tz todayStart (endHour peak);
                peakFree = peakFreeSlotsOf peakStart peakEnd free
            in \<lparr>avCase = (if length peakFree > 0 then A else C),
                freeSlots = free,
                peakFreeSlots = peakFree,
                isWeekend = weekendDay,
                todayLabel = label\<rparr>))"

section \<open>Reading the sweep\<close>

text \<open>
  The two components of the loop's result as functions of their own: the slots pushed
  from a given cursor on, and the cursor after the last interval.
\<close>

fun gaps :: "int \<Rightarrow> (int \<times> int) list \<Rightarrow> TimeSlot list" where
  "gaps cursor [] = []"
| "gaps cursor ((bStart, bEnd) # rest) =
     (if bStart > cursor then [\<lparr>start = cursor, end' = bStart\<rparr>] else []) @
     gaps (max cursor bEnd) rest"

fun finalCursor :: "int \<Rightarrow> (int \<times> int) list \<Rightarrow> int" where
  "finalCursor cursor [] = cursor"
| "finalCursor cursor ((bStart, bEnd) # rest) = finalCursor (max cursor bEnd) rest"

text \<open>
  The instants (milliseconds) of a half-open slot, of a list of slots and of a list of busy
  intervals.
\<close>

definition slotPoints :: "TimeSlot \<Rightarrow> int set" where
  "slotPoints slot = {start slot ..< end' slot}"

definition freePoints :: "TimeSlot list \<Rightarrow> int set" where
  "freePoints slots = (\<Union>slot \<in> set slots. slotPoints slot)"

definition busyPoints :: "(int \<times> int) list \<Rightarrow> int set" where
  "busyPoints busy = (\<Union>(s, e) \<in> set busy. {s ..< e})"

text \<open>
  Conditions on the busy intervals: \<open>wellFormed\<close> is the invariant of the data model,
  every interval starts before it ends; \<open>notInverted\<close> also admits intervals of length
  zero; \<open>startsBy dayEnd\<close> says that no interval starts after the day window has ended,
  as it is for the events that the calendar request of \<open>getAvailability\<close> returns for
  \<open>timeMax = todayEnd\<close>.
\<close>

definition wellFormed :: "(int \<times> int) list \<Rightarrow> bool" where
  "wellFormed busy = list_all (\<lambda>(s, e). s < e) busy"

definition notInverted :: "(int \<times> int) list \<Rightarrow> bool" where
  "notInverted busy = list_all (\<lambda>(s, e). s \<le> e) busy"

definition startsBy :: "int \<Rightarrow> (int \<times> int) list \<Rightarrow> bool" where
  "startsBy dayEnd busy = list_all (\<lambda>(s, e). s \<le> dayEnd) busy"

section \<open>calcFreeSlots on arrays in a store\<close>

text \<open>
  JavaScript arrays are objects passed by reference. A store is the list of the arrays
  allocated so far, an array's address is its index. \<open>[...a]\<close> allocates a new array
  with the elements of \<open>a\<close>; \<open>sort\<close> sorts the array at an address in place and
  returns that address. The pairs themselves are only read by the loop, so they are
  values here. \<open>calcFreeSlotsRef\<close> is \<open>calcFreeSlots\<close> on the address of its argument; an
  address outside the store cannot be passed by the source and gives \<open>None\<close>.
\<close>

type_synonym store = "(int \<times> int) list list"

definition spreadCopy :: "nat \<Rightarrow> store \<Rightarrow> nat \<times> store" where
  "spreadCopy a h = (length h, h @ [h ! a])"

definition sortInPlace :: "nat \<Rightarrow> store \<Rightarrow> nat \<times> store" where
  "sortInPlace a h = (a, h[a := sort_key fst (h ! a)])"

definition calcFreeSlotsRef ::
  "int \<Rightarrow> int \<Rightarrow> nat \<Rightarrow> timezone \<Rightarrow> store \<Rightarrow> (TimeSlot list \<times> store) option" where
  "calcFreeSlotsRef dayStart dayEnd busyRef tz h =
     (if busyRef < length h then
        (let (copyRef, h1) = spreadCopy busyRef h;
             (sortedRef, h2) = sortInPlace copyRef h1;
             (cursor, slots) = sweep (h2 ! sortedRef) dayStart []
         in Some (if cursor < dayEnd then slots @ [\<lparr>start = cursor, end' = dayEnd\<rparr>] else slots,
                  h2))
      else None)"

section \<open>The sweep as gaps and final cursor\<close>

lemma sweep_gaps: "sweep xs c acc = (finalCursor c xs, acc @ gaps c xs)"
  by (induction xs arbitrary: c acc) auto

lemma calcFreeSlots_gaps:
  "calcFreeSlots ds de busy tz =
     gaps ds (sort_key fst busy) @
       (if finalCursor ds (sort_key fst busy) < de
        then [\<lparr>start = finalCursor ds (sort_key fst busy), end' = de\<rparr>] else [])"
  by (simp add: calcFreeSlots_def sweep_gaps Let_def)

lemma finalCursor_ge: "c \<le> finalCursor c xs"
proof (induction xs arbitrary: c)
  case Nil then show ?case by simp
next
  case (Cons x xs)
  obtain s e where x: "x = (s, e)" by (cases x)
  have "c \<le> max c e" by simp
  also have "\<dots> \<le> finalCursor (max c e) xs" by (rule Cons.IH)
  finally show ?case using x by simp
qed

lemma finalCursor_ends: "(s, e) \<in> set xs \<Longrightarrow> e \<le> finalCursor c xs"
proof (induction xs arbitrary: c)
  case Nil then show ?case by simp
next
  case (Cons x xs)
  obtain s' e' where x: "x = (s', e')" by (cases x)
  show ?case
  proof (cases "(s, e) = x")
    case True
    then have "e \<le> max c e'" using x by simp
    also have "\<dots> \<le> finalCursor (max c e') xs" by (rule finalCursor_ge)
    finally show ?thesis using x by simp
  next
    case False
    then have "(s, e) \<in> set xs" using Cons.prems by auto
    then show ?thesis using Cons.IH x by simp
  qed
qed

lemma gaps_shape:
  "list_all (\<lambda>(s, e). s < e) xs \<Longrightarrow>
   sorted_wrt (\<lambda>a b. end' a < start b) (gaps c xs) \<and>
   (\<forall>g \<in> set (gaps c xs). c \<le> start g \<and> start g < end' g \<and> end' g < finalCursor c xs)"
proof (induction xs arbitrary: c)
  case Nil then show ?case by simp
next
  case (Cons x xs)
  obtain s e where x: "x = (s, e)" by (cases x)
  from Cons.prems x have se: "s < e" and wf: "list_all (\<lambda>(s, e). s < e) xs" by auto
  note IH = Cons.IH [OF wf, of "max c e"]
  have fc: "max c e \<le> finalCursor (max c e) xs" by (rule finalCursor_ge)
  show ?case using IH se fc x
    by (fastforce simp: sorted_wrt_append)
qed

section \<open>The instants covered by the free slots\<close>

lemma freePoints_Nil [simp]: "freePoints [] = {}"
  by (simp add: freePoints_def)

lemma freePoints_append [simp]: "freePoints (xs @ ys) = freePoints xs \<union> freePoints ys"
  by (auto simp: freePoints_def)

lemma freePoints_single [simp]: "freePoints [\<lparr>start = a, end' = b\<rparr>] = {a ..< b}"
  by (simp add: freePoints_def slotPoints_def)

lemma busyPoints_Cons [simp]: "busyPoints ((s, e) # xs) = {s ..< e} \<union> busyPoints xs"
  by (simp add: busyPoints_def)

lemma busyPoints_Nil [simp]: "busyPoints [] = {}"
  by (simp add: busyPoints_def)

lemma busyPoints_before:
  "\<forall>(s, e) \<in> set xs. t < s \<Longrightarrow> t \<notin> busyPoints xs"
  by (auto simp: busyPoints_def)

lemma gaps_points:
  "sorted (map fst xs) \<Longrightarrow>
   freePoints (gaps c xs) = {t. c \<le> t \<and> t \<notin> busyPoints xs \<and> (\<exists>(s, e) \<in> set xs. t < s)}"
proof (induction xs arbitrary: c)
  case Nil then show ?case by simp
next
  case (Cons x xs)
  obtain s e where x: "x = (s, e)" by (cases x)
  from Cons.prems x have srt: "sorted (map fst xs)" and low: "\<forall>(s', e') \<in> set xs. s \<le> s'"
    by auto
  have IH: "freePoints (gaps (max c e) xs) =
      {t. max c e \<le> t \<and> t \<notin> busyPoints xs \<and> (\<exists>(s, e) \<in> set xs. t < s)}"
    by (rule Cons.IH [OF srt])
  have early: "t \<notin> busyPoints xs" if "t < s" for t
    using low that by (intro busyPoints_before) auto
  have late: "s \<le> t" if "(s', e') \<in> set xs" "t \<ge> s'" for t s' e'
    using low that by auto
  show ?case
  proof (rule set_eqI)
    fix t
    show "t \<in> freePoints (gaps c (x # xs)) \<longleftrightarrow>
          t \<in> {t. c \<le> t \<and> t \<notin> busyPoints (x # xs) \<and> (\<exists>(s, e) \<in> set (x # xs). t < s)}"
    proof (cases "t < s")
      case True
      then show ?thesis using x IH early [OF True] by auto
    next
      case False
      then show ?thesis using x IH by auto
    qed
  qed
qed

lemma finalCursor_reached:
  "t < finalCursor c xs \<Longrightarrow> t < c \<or> (\<exists>(s, e) \<in> set xs. t < e)"
proof (induction xs arbitrary: c)
  case Nil then show ?case by simp
next
  case (Cons x xs)
  obtain s e where x: "x = (s, e)" by (cases x)
  from Cons.prems x have "t < finalCursor (max c e) xs" by simp
  from Cons.IH [OF this] show ?case using x by auto
qed

lemma finalCursor_free: "finalCursor c xs \<le> t \<Longrightarrow> t \<notin> busyPoints xs"
  using finalCursor_ends [of _ _ xs c] by (fastforce simp: busyPoints_def)

lemma busyPoints_sort [simp]: "busyPoints (sort_key f xs) = busyPoints xs"
  by (simp add: busyPoints_def)

lemma calcFreeSlots_points:
  assumes within: "\<forall>(s, e) \<in> set busy. s \<le> de"
  shows "freePoints (calcFreeSlots ds de busy tz) = {ds ..< de} - busyPoints busy"
proof -
  let ?xs = "sort_key fst busy"
  let ?f = "finalCursor ds ?xs"
  have srt: "sorted (map fst ?xs)" by simp
  have gp: "freePoints (gaps ds ?xs) =
      {t. ds \<le> t \<and> t \<notin> busyPoints busy \<and> (\<exists>(s, e) \<in> set busy. t < s)}"
    using gaps_points [OF srt, of ds] by simp
  have tail: "freePoints (if ?f < de then [\<lparr>start = ?f, end' = de\<rparr>] else []) = {?f ..< de}"
    by simp
  have fp: "freePoints (calcFreeSlots ds de busy tz) =
      {t. ds \<le> t \<and> t \<notin> busyPoints busy \<and> (\<exists>(s, e) \<in> set busy. t < s)} \<union> {?f ..< de}"
    unfolding calcFreeSlots_gaps freePoints_append gp tail ..
  show ?thesis
  proof (rule set_eqI)
    fix t
    show "t \<in> freePoints (calcFreeSlots ds de busy tz) \<longleftrightarrow> t \<in> {ds ..< de} - busyPoints busy"
    proof
      assume "t \<in> freePoints (calcFreeSlots ds de busy tz)"
      then consider (gap) "ds \<le> t" "t \<notin> busyPoints busy" "\<exists>(s, e) \<in> set busy. t < s"
        | (last) "?f \<le> t" "t < de"
        unfolding fp by auto
      then show "t \<in> {ds ..< de} - busyPoints busy"
      proof cases
        case gap
        then show ?thesis using within by fastforce
      next
        case last
        have "ds \<le> ?f" by (rule finalCursor_ge)
        moreover have "t \<notin> busyPoints ?xs" using last(1) by (rule finalCursor_free)
        ultimately show ?thesis using last by simp
      qed
    next
      assume t: "t \<in> {ds ..< de} - busyPoints busy"
      show "t \<in> freePoints (calcFreeSlots ds de busy tz)"
      proof (cases "?f \<le> t")
        case True
        then show ?thesis unfolding fp using t by simp
      next
        case False
        then have "t < ?f" by simp
        from finalCursor_reached [OF this] t obtain s e where "(s, e) \<in> set busy" "t < e"
          by auto
        moreover from this t have "t < s" by (fastforce simp: busyPoints_def)
        ultimately show ?thesis unfolding fp using t by auto
      qed
    qed
  qed
qed

section \<open>Reordering and repeating busy intervals\<close>

lemma sweep_swap:
  "s \<le> e1 \<Longrightarrow> s \<le> e2 \<Longrightarrow>
   sweep ((s, e1) # (s, e2) # xs) c acc = sweep ((s, e2) # (s, e1) # xs) c acc"
  by (auto simp: max.assoc max.commute max.left_commute)

lemma sweep_dup:
  "s \<le> e \<Longrightarrow> sweep ((s, e) # (s, e) # xs) c acc = sweep ((s, e) # xs) c acc"
  by auto

lemma sweep_move_front:
  assumes "\<forall>u \<in> set us. fst u = fst x \<and> fst u \<le> snd u" and "fst x \<le> snd x"
  shows "sweep (us @ x # vs) c acc = sweep (x # us @ vs) c acc"
  using assms(1)
proof (induction us arbitrary: c acc)
  case Nil then show ?case by simp
next
  case (Cons u us)
  obtain s e1 where u: "u = (s, e1)" by (cases u)
  obtain s' e2 where x: "x = (s', e2)" by (cases x)
  from Cons.prems u x assms(2) have eq: "s' = s" and le1: "s \<le> e1" and le2: "s \<le> e2"
    by auto
  from Cons.prems have rest: "\<forall>u \<in> set us. fst u = fst x \<and> fst u \<le> snd u"
    by (metis list.set_intros(2))
  note IH = Cons.IH [OF rest]
  have "sweep ((u # us) @ x # vs) c acc = sweep ((s, e1) # (s, e2) # us @ vs) c acc"
    using IH u x eq by simp
  also have "\<dots> = sweep ((s, e2) # (s, e1) # us @ vs) c acc"
    by (rule sweep_swap [OF le1 le2])
  finally show ?case using u x eq by simp
qed

lemma sweep_perm:
  assumes "sorted (map fst xs)" and "sorted (map fst ys)" and "mset xs = mset ys"
    and "notInverted xs"
  shows "sweep xs c acc = sweep ys c acc"
  using assms
proof (induction xs arbitrary: ys c acc)
  case Nil then show ?case by simp
next
  case (Cons x xs)
  from Cons.prems(3) have sets: "set ys = set (x # xs)" by (metis mset_eq_setD)
  then have "x \<in> set ys" by simp
  then obtain us vs where ys: "ys = us @ x # vs" by (auto dest: split_list)
  have low: "fst x \<le> fst y" if "y \<in> set (x # xs)" for y
    using Cons.prems(1) that by auto
  have ni: "fst y \<le> snd y" if "y \<in> set (x # xs)" for y
    using Cons.prems(4) that by (auto simp: notInverted_def list_all_iff)
  have "fst u = fst x \<and> fst u \<le> snd u" if "u \<in> set us" for u
  proof -
    from that ys sets have mem: "u \<in> set (x # xs)" by auto
    from Cons.prems(2) ys that have "fst u \<le> fst x" by (auto simp: sorted_append)
    with low [OF mem] ni [OF mem] show ?thesis by simp
  qed
  then have front: "\<forall>u \<in> set us. fst u = fst x \<and> fst u \<le> snd u" by blast
  have xle: "fst x \<le> snd x" by (rule ni) simp
  have m: "mset xs = mset (us @ vs)" using Cons.prems(3) ys by simp
  have s1: "sorted (map fst xs)" using Cons.prems(1) by simp
  have s2: "sorted (map fst (us @ vs))" using Cons.prems(2) ys by (auto simp: sorted_append)
  have n: "notInverted xs" using Cons.prems(4) by (simp add: notInverted_def)
  obtain s e where x: "x = (s, e)" by (cases x)
  have "sweep ys c acc = sweep (x # us @ vs) c acc"
    unfolding ys by (rule sweep_move_front [OF front xle])
  also have "\<dots> = sweep (x # xs) c acc"
    using Cons.IH [OF s1 s2 m n] x by simp
  finally show ?case by simp
qed

lemma sweep_insort_dup:
  "fst x \<le> snd x \<Longrightarrow>
   sweep (insort_key fst x (insort_key fst x S)) c acc = sweep (insort_key fst x S) c acc"
proof (induction S arbitrary: c acc)
  case Nil
  then show ?case using sweep_dup [of "fst x" "snd x" "[]" c acc] by simp
next
  case (Cons y S)
  obtain s e where y: "y = (s, e)" by (cases y)
  show ?case
  proof (cases "fst x \<le> fst y")
    case True
    then show ?thesis
      using sweep_dup [of "fst x" "snd x" "y # S" c acc] Cons.prems by simp
  next
    case False
    then show ?thesis using Cons.IH [OF Cons.prems] y by simp
  qed
qed

lemma notInverted_mset: "mset xs = mset ys \<Longrightarrow> notInverted xs \<Longrightarrow> notInverted ys"
  by (metis notInverted_def list_all_iff mset_eq_setD)

lemma calcFreeSlots_perm:
  assumes "mset xs = mset ys" and "notInverted xs"
  shows "calcFreeSlots ds de xs tz = calcFreeSlots ds de ys tz"
proof -
  have "sweep (sort_key fst xs) ds [] = sweep (sort_key fst ys) ds []"
  proof (rule sweep_perm)
    show "notInverted (sort_key fst xs)"
      using assms(2) by (simp add: notInverted_def list_all_iff)
  qed (simp_all add: assms(1))
  then show ?thesis by (simp add: calcFreeSlots_def)
qed

lemma calcFreeSlots_dup:
  assumes mem: "x \<in> set L" and ni: "notInverted L" and M: "mset M = add_mset x (mset L)"
  shows "calcFreeSlots ds de M tz = calcFreeSlots ds de L tz"
proof -
  let ?S = "sort_key fst L"
  let ?S' = "insort_key fst x (sort_key fst (remove1 x L))"
  have xle: "fst x \<le> snd x"
    using mem ni by (auto simp: notInverted_def list_all_iff)
  have mS: "mset ?S' = mset ?S" using mem by simp
  have niS: "notInverted ?S" using ni by (simp add: notInverted_def list_all_iff)
  have niS': "notInverted ?S'" by (rule notInverted_mset [OF mS [symmetric] niS])
  have srtS': "sorted (map fst ?S')" by (simp add: sorted_insort_key)
  have ni1: "notInverted (insort_key fst x ?S')"
    using niS' xle by (auto simp: notInverted_def list_all_iff set_insort_key)
  have mM: "mset (insort_key fst x ?S') = mset (sort_key fst M)"
    using mem M by simp
  have "sweep (sort_key fst M) ds [] = sweep (insort_key fst x ?S') ds []"
    by (rule sweep_perm [symmetric, OF _ _ mM ni1]) (simp_all add: sorted_insort_key)
  also have "\<dots> = sweep ?S' ds []" by (rule sweep_insort_dup [OF xle])
  also have "\<dots> = sweep ?S ds []"
    by (rule sweep_perm [OF srtS' _ mS niS']) simp
  finally show ?thesis by (simp add: calcFreeSlots_def)
qed

lemma wellFormed_notInverted: "wellFormed busy \<Longrightarrow> notInverted busy"
  by (auto simp: wellFormed_def notInverted_def list_all_iff)

section \<open>Shape of the result\<close>

lemma calcFreeSlots_shape:
  assumes "wellFormed busy"
  shows "sorted_wrt (\<lambda>a b. end' a < start b) (calcFreeSlots ds de busy tz) \<and>
         (\<forall>g \<in> set (calcFreeSlots ds de busy tz). start g < end' g)"
proof -
  let ?xs = "sort_key fst busy"
  have wf: "list_all (\<lambda>(s, e). s < e) ?xs"
    using assms by (simp add: wellFormed_def list_all_iff)
  from gaps_shape [OF wf, of ds] show ?thesis
    unfolding calcFreeSlots_gaps by (auto simp: sorted_wrt_append)
qed

lemma slots_within:
  assumes pts: "freePoints r \<subseteq> {ds ..< de}" and pos: "\<forall>g \<in> set r. start g < end' g"
    and g: "g \<in> set r"
  shows "ds \<le> start g \<and> end' g \<le> de"
proof -
  from pos g have lt: "start g < end' g" by blast
  then have "start g \<in> slotPoints g" and "end' g - 1 \<in> slotPoints g"
    by (simp_all add: slotPoints_def)
  with g have "start g \<in> freePoints r" and "end' g - 1 \<in> freePoints r"
    by (auto simp: freePoints_def)
  with pts show ?thesis by auto
qed

section \<open>Coverage of the day window\<close>

text \<open>
  C1, as amended. Let the day window be \<open>[dayStart, dayEnd)\<close> with \<open>dayStart < dayEnd\<close>, let
  every busy interval start before it ends, and let no busy interval start after
  \<open>dayEnd\<close>. Then the free slots returned by \<open>calcFreeSlots\<close> together with the part of
  the busy intervals inside the window make up exactly the window, no instant is both
  free and busy, the free slots are pairwise disjoint, and every free slot lies inside
  \<open>[dayStart, dayEnd)\<close>.
\<close>

theorem coverage_within_day:
  assumes "dayStart < dayEnd" and "wellFormed busy" and "startsBy dayEnd busy"
  shows "freePoints (calcFreeSlots dayStart dayEnd busy tz) \<union>
           (busyPoints busy \<inter> {dayStart ..< dayEnd}) = {dayStart ..< dayEnd} \<and>
         freePoints (calcFreeSlots dayStart dayEnd busy tz) \<inter> busyPoints busy = {} \<and>
         sorted_wrt (\<lambda>a b. slotPoints a \<inter> slotPoints b = {})
           (calcFreeSlots dayStart dayEnd busy tz) \<and>
         (\<forall>g \<in> set (calcFreeSlots dayStart dayEnd busy tz).
            dayStart \<le> start g \<and> end' g \<le> dayEnd)"
proof -
  let ?r = "calcFreeSlots dayStart dayEnd busy tz"
  have within: "\<forall>(s, e) \<in> set busy. s \<le> dayEnd"
    using assms(3) by (simp add: startsBy_def list_all_iff)
  have pts: "freePoints ?r = {dayStart ..< dayEnd} - busyPoints busy"
    by (rule calcFreeSlots_points [OF within])
  note shape = calcFreeSlots_shape [OF assms(2), of dayStart dayEnd tz]
  have sep: "sorted_wrt (\<lambda>a b. slotPoints a \<inter> slotPoints b = {}) ?r"
    by (rule sorted_wrt_mono_rel [OF _ conjunct1 [OF shape]])
       (auto simp: slotPoints_def)
  have sub: "freePoints ?r \<subseteq> {dayStart ..< dayEnd}" using pts by blast
  have inside: "\<forall>g \<in> set ?r. dayStart \<le> start g \<and> end' g \<le> dayEnd"
    using slots_within [OF sub conjunct2 [OF shape]] by blast
  have "freePoints ?r \<union> (busyPoints busy \<inter> {dayStart ..< dayEnd}) = {dayStart ..< dayEnd}"
    unfolding pts by blast
  moreover have "freePoints ?r \<inter> busyPoints busy = {}" unfolding pts by blast
  ultimately show ?thesis using sep inside by blast
qed

text \<open>The theorem at the window \<open>[0, 100)\<close> with two overlapping busy intervals.\<close>

theorem coverage_within_day_witness:
  "(0::int) < 100 \<and> wellFormed [(30, 50), (10, 40)] \<and> startsBy 100 [(30, 50), (10, 40)] \<and>
   calcFreeSlots 0 100 [(30, 50), (10, 40)] ''Asia/Tokyo'' =
     [\<lparr>start = 0, end' = 10\<rparr>, \<lparr>start = 50, end' = 100\<rparr>] \<and>
   freePoints (calcFreeSlots 0 100 [(30, 50), (10, 40)] ''Asia/Tokyo'') \<union>
     (busyPoints [(30, 50), (10, 40)] \<inter> {0 ..< 100}) = {0 ..< 100} \<and>
   freePoints (calcFreeSlots 0 100 [(30, 50), (10, 40)] ''Asia/Tokyo'') \<inter>
     busyPoints [(30, 50), (10, 40)] = {}"
proof -
  have h1: "(0::int) < 100" by simp
  have h2: "wellFormed [(30, 50), (10, 40)]" by (simp add: wellFormed_def)
  have h3: "startsBy 100 [(30, 50), (10, 40)]" by (simp add: startsBy_def)
  have v: "calcFreeSlots 0 100 [(30, 50), (10, 40)] ''Asia/Tokyo'' =
     [\<lparr>start = 0, end' = 10\<rparr>, \<lparr>start = 50, end' = 100\<rparr>]"
    by (simp add: calcFreeSlots_def)
  from coverage_within_day [OF h1 h2 h3, of "''Asia/Tokyo''"] h1 h2 h3 v show ?thesis by blast
qed

text \<open>
  Without the condition on the starts the statement fails: for the window \<open>[0, 100)\<close> and
  the single busy interval \<open>[150, 160)\<close> the loop pushes the slot \<open>[0, 150)\<close>, which leaves the
  window, and the final test \<open>cursor < dayEnd\<close> is false for the cursor 160.
\<close>

theorem coverage_counterexample:
  "(0::int) < 100 \<and> wellFormed [(150, 160)] \<and>
   calcFreeSlots 0 100 [(150, 160)] ''Asia/Tokyo'' = [\<lparr>start = 0, end' = 150\<rparr>] \<and>
   \<not> freePoints (calcFreeSlots 0 100 [(150, 160)] ''Asia/Tokyo'') \<union>
       (busyPoints [(150, 160)] \<inter> {0 ..< 100}) = {0 ..< 100}"
proof -
  have v: "calcFreeSlots 0 100 [(150, 160)] ''Asia/Tokyo'' = [\<lparr>start = 0, end' = 150\<rparr>]"
    by (simp add: calcFreeSlots_def)
  have "(120::int) \<in> freePoints [\<lparr>start = 0, end' = 150\<rparr>]" by simp
  moreover have "(120::int) \<notin> {0 ..< 100}" by simp
  ultimately have "\<not> freePoints [\<lparr>start = 0, end' = 150\<rparr>] \<union>
      (busyPoints [(150, 160)] \<inter> {0 ..< 100}) = {0 ..< (100::int)}"
    by blast
  then show ?thesis using v by (simp add: wellFormed_def)
qed

section \<open>Order, separation and positive length of the free slots\<close>

text \<open>
  C2, as amended. For \<open>dayStart < dayEnd\<close> and busy intervals that each start before they
  end, the result of \<open>calcFreeSlots\<close> is sorted by start, a slot ends no later than every
  later slot starts, two consecutive slots never touch, and every slot has positive
  length. If moreover no busy interval starts after \<open>dayEnd\<close> and the busy intervals
  cover the whole of \<open>[dayStart, dayEnd)\<close>, the result is empty.
\<close>

theorem free_slots_shape:
  assumes "dayStart < dayEnd" and "wellFormed busy"
  shows "sorted_wrt (\<lambda>a b. start a < start b) (calcFreeSlots dayStart dayEnd busy tz) \<and>
         sorted_wrt (\<lambda>a b. end' a \<le> start b) (calcFreeSlots dayStart dayEnd busy tz) \<and>
         (\<forall>i. Suc i < length (calcFreeSlots dayStart dayEnd busy tz) \<longrightarrow>
            end' (calcFreeSlots dayStart dayEnd busy tz ! i) <
            start (calcFreeSlots dayStart dayEnd busy tz ! Suc i)) \<and>
         (\<forall>g \<in> set (calcFreeSlots dayStart dayEnd busy tz). start g < end' g) \<and>
         (startsBy dayEnd busy \<and> {dayStart ..< dayEnd} \<subseteq> busyPoints busy \<longrightarrow>
            calcFreeSlots dayStart dayEnd busy tz = [])"
proof -
  let ?r = "calcFreeSlots dayStart dayEnd busy tz"
  note shape = calcFreeSlots_shape [OF assms(2), of dayStart dayEnd tz]
  then have sep: "sorted_wrt (\<lambda>a b. end' a < start b) ?r"
    and pos: "\<forall>g \<in> set ?r. start g < end' g" by blast+
  have byStart: "sorted_wrt (\<lambda>a b. start a < start b) ?r"
    unfolding sorted_wrt_iff_nth_less
  proof (intro allI impI)
    fix i j assume ij: "i < j" and j: "j < length ?r"
    then have "?r ! i \<in> set ?r" by simp
    with pos have "start (?r ! i) < end' (?r ! i)" by blast
    also have "\<dots> < start (?r ! j)"
      using sep ij j by (simp add: sorted_wrt_iff_nth_less)
    finally show "start (?r ! i) < start (?r ! j)" .
  qed
  have noOverlap: "sorted_wrt (\<lambda>a b. end' a \<le> start b) ?r"
    by (rule sorted_wrt_mono_rel [OF _ sep]) simp
  have noTouch: "\<forall>i. Suc i < length ?r \<longrightarrow> end' (?r ! i) < start (?r ! Suc i)"
    using sep by (simp add: sorted_wrt_iff_nth_less)
  have full: "?r = []" if sb: "startsBy dayEnd busy" and cov: "{dayStart ..< dayEnd} \<subseteq> busyPoints busy"
  proof (rule ccontr)
    assume "?r \<noteq> []"
    then obtain g where g: "g \<in> set ?r" by (cases ?r) auto
    have within: "\<forall>(s, e) \<in> set busy. s \<le> dayEnd"
      using sb by (simp add: startsBy_def list_all_iff)
    have "freePoints ?r = {dayStart ..< dayEnd} - busyPoints busy"
      by (rule calcFreeSlots_points [OF within])
    with cov have empty: "freePoints ?r = {}" by blast
    from pos g have "start g \<in> slotPoints g" by (simp add: slotPoints_def)
    with g have "start g \<in> freePoints ?r" by (auto simp: freePoints_def)
    with empty show False by simp
  qed
  show ?thesis using byStart noOverlap noTouch pos full by blast
qed

text \<open>
  The theorem at a fully covered window (result empty) and at three busy intervals of
  which two overlap (three separated slots).
\<close>

theorem free_slots_shape_witness:
  "(0::int) < 100 \<and> wellFormed [(50, 100), (0, 60)] \<and> startsBy 100 [(50, 100), (0, 60)] \<and>
   {0 ..< 100} \<subseteq> busyPoints [(50, 100), (0, 60)] \<and>
   calcFreeSlots 0 100 [(50, 100), (0, 60)] ''Asia/Tokyo'' = [] \<and>
   wellFormed [(60, 80), (10, 40), (30, 50)] \<and>
   calcFreeSlots 0 100 [(60, 80), (10, 40), (30, 50)] ''Asia/Tokyo'' =
     [\<lparr>start = 0, end' = 10\<rparr>, \<lparr>start = 50, end' = 60\<rparr>, \<lparr>start = 80, end' = 100\<rparr>] \<and>
   sorted_wrt (\<lambda>a b. start a < start b)
     (calcFreeSlots 0 100 [(60, 80), (10, 40), (30, 50)] ''Asia/Tokyo'') \<and>
   sorted_wrt (\<lambda>a b. end' a \<le> start b)
     (calcFreeSlots 0 100 [(60, 80), (10, 40), (30, 50)] ''Asia/Tokyo'')"
proof -
  have h1: "(0::int) < 100" by simp
  have h2: "wellFormed [(50, 100), (0, 60)]" by (simp add: wellFormed_def)
  have h3: "startsBy 100 [(50, 100), (0, 60)]" by (simp add: startsBy_def)
  have h4: "{0 ..< 100} \<subseteq> busyPoints [(50, 100), (0, 60)]" by auto
  have h5: "wellFormed [(60, 80), (10, 40), (30, 50)]" by (simp add: wellFormed_def)
  have v: "calcFreeSlots 0 100 [(60, 80), (10, 40), (30, 50)] ''Asia/Tokyo'' =
     [\<lparr>start = 0, end' = 10\<rparr>, \<lparr>start = 50, end' = 60\<rparr>, \<lparr>start = 80, end' = 100\<rparr>]"
    by (simp add: calcFreeSlots_def)
  from free_slots_shape [OF h1 h2, of "''Asia/Tokyo''"] h3 h4
  have e: "calcFreeSlots 0 100 [(50, 100), (0, 60)] ''Asia/Tokyo'' = []" by blast
  from free_slots_shape [OF h1 h5, of "''Asia/Tokyo''"] h1 h2 h3 h4 h5 e v show ?thesis by blast
qed

text \<open>
  The last part needs the condition on the starts: the busy intervals \<open>[0, 100)\<close> and
  \<open>[150, 160)\<close> cover the window \<open>[0, 100)\<close>, and the result is the slot \<open>[100, 150)\<close>.
\<close>

theorem full_cover_counterexample:
  "(0::int) < 100 \<and> wellFormed [(0, 100), (150, 160)] \<and>
   {0 ..< 100} \<subseteq> busyPoints [(0, 100), (150, 160)] \<and>
   calcFreeSlots 0 100 [(0, 100), (150, 160)] ''Asia/Tokyo'' = [\<lparr>start = 100, end' = 150\<rparr>] \<and>
   calcFreeSlots 0 100 [(0, 100), (150, 160)] ''Asia/Tokyo'' \<noteq> []"
  by (simp add: wellFormed_def calcFreeSlots_def)

section \<open>Order independence and duplicates\<close>

text \<open>
  C7. For every day window, permuting the busy intervals leaves the result of
  \<open>calcFreeSlots\<close> the same list, slot by slot. The busy intervals are those of the
  data model, each starting before it ends; the proof only needs that none ends before
  it starts. Being a permutation is equality of the multisets of the two lists.
\<close>

theorem order_independence:
  assumes "mset busy1 = mset busy2" and "notInverted busy1"
  shows "calcFreeSlots dayStart dayEnd busy1 tz = calcFreeSlots dayStart dayEnd busy2 tz"
  by (rule calcFreeSlots_perm [OF assms])

text \<open>The theorem at three intervals, two of them with the same start.\<close>

theorem order_independence_witness:
  "mset [(18, 20), (10, 15), (10, 12)] = mset [(10, 12), (18, 20), (10, 15 :: int)] \<and>
   notInverted [(18, 20), (10, 15), (10, 12)] \<and>
   calcFreeSlots 0 24 [(18, 20), (10, 15), (10, 12)] ''Asia/Tokyo'' =
     calcFreeSlots 0 24 [(10, 12), (18, 20), (10, 15)] ''Asia/Tokyo'' \<and>
   calcFreeSlots 0 24 [(18, 20), (10, 15), (10, 12)] ''Asia/Tokyo'' =
     [\<lparr>start = 0, end' = 10\<rparr>, \<lparr>start = 15, end' = 18\<rparr>, \<lparr>start = 20, end' = 24\<rparr>]"
proof -
  have h1: "mset [(18, 20), (10, 15), (10, 12)] = mset [(10, 12), (18, 20), (10, 15 :: int)]"
    by simp
  have h2: "notInverted [(18, 20), (10, 15), (10, 12)]" by (simp add: notInverted_def)
  have v: "calcFreeSlots 0 24 [(18, 20), (10, 15), (10, 12)] ''Asia/Tokyo'' =
     [\<lparr>start = 0, end' = 10\<rparr>, \<lparr>start = 15, end' = 18\<rparr>, \<lparr>start = 20, end' = 24\<rparr>]"
    by (simp add: calcFreeSlots_def)
  from order_independence [OF h1 h2, of 0 24 "''Asia/Tokyo''"] h1 h2 v show ?thesis by blast
qed

text \<open>
  C8. For every day window, inserting at any position a copy of a busy interval that
  already occurs in the input leaves the result of \<open>calcFreeSlots\<close> unchanged. As for C7
  the busy intervals are those of the data model, and the proof needs only that none
  ends before it starts.
\<close>

theorem duplicate_no_effect:
  assumes "x \<in> set (us @ vs)" and "notInverted (us @ vs)"
  shows "calcFreeSlots dayStart dayEnd (us @ x # vs) tz =
         calcFreeSlots dayStart dayEnd (us @ vs) tz"
  by (rule calcFreeSlots_dup [OF assms]) simp

text \<open>The theorem at a copy of \<open>(10, 15)\<close> put between two intervals.\<close>

theorem duplicate_no_effect_witness:
  "(10, 15) \<in> set ([(18, 20), (10, 15)] @ [(10, 12 :: int)]) \<and>
   notInverted ([(18, 20), (10, 15)] @ [(10, 12)]) \<and>
   calcFreeSlots 0 24 ([(18, 20), (10, 15)] @ (10, 15) # [(10, 12)]) ''Asia/Tokyo'' =
     calcFreeSlots 0 24 ([(18, 20), (10, 15)] @ [(10, 12)]) ''Asia/Tokyo''"
proof -
  have h1: "(10, 15) \<in> set ([(18, 20), (10, 15)] @ [(10, 12 :: int)])" by simp
  have h2: "notInverted ([(18, 20), (10, 15)] @ [(10, 12)])" by (simp add: notInverted_def)
  from duplicate_no_effect [OF h1 h2, of 0 24 "''Asia/Tokyo''"] h1 h2 show ?thesis by blast
qed

text \<open>
  An interval that ends before it starts, which the data model excludes, does not move
  the cursor past its start, and then the order of two intervals with the same start
  shows in the result.
\<close>

lemma inverted_interval_order_matters:
  "calcFreeSlots 0 24 [(10, 5), (10, 15)] ''Asia/Tokyo'' \<noteq>
   calcFreeSlots 0 24 [(10, 15), (10, 5)] ''Asia/Tokyo''"
  by (simp add: calcFreeSlots_def)

section \<open>Zero reservations\<close>

text \<open>
  C3. With no event in the calendar response (zero reservations) the result is case B,
  its only free slot is the whole day window and its peak-free list is empty, whatever
  the peak hours, the time zone, the instant of the call and the answers of dayjs are.
\<close>

theorem zero_reservations_case_B:
  "avCase (getAvailability dayjs peakHours tz now label []) = B \<and>
   freeSlots (getAvailability dayjs peakHours tz now label []) =
     [\<lparr>start = startOfDay dayjs tz now, end' = endOfDay dayjs tz now\<rparr>] \<and>
   peakFreeSlots (getAvailability dayjs peakHours tz now label []) = []"
  by (simp add: getAvailability_def Let_def)

section \<open>Full-day booking\<close>

text \<open>
  C4. A single busy interval equal to the day window leaves no free slot, and
  \<open>getAvailability\<close> on the single event that fills the day window returns, as an
  ordinary result, case C with no free slot and no peak-free slot.
\<close>

theorem full_day_booking_case_C:
  "calcFreeSlots dayStart dayEnd [(dayStart, dayEnd)] tz = [] \<and>
   getAvailability dayjs peakHours tz now label
     [\<lparr>evStart = Some (startOfDay dayjs tz now), evEnd = Some (endOfDay dayjs tz now)\<rparr>] =
     \<lparr>avCase = C, freeSlots = [], peakFreeSlots = [],
      isWeekend = (dayOfWeek dayjs tz now = 0 \<or> dayOfWeek dayjs tz now = 6),
      todayLabel = label\<rparr>"
proof -
  have a: "calcFreeSlots ds de [(ds, de)] z = []" for ds de z
    by (simp add: calcFreeSlots_def)
  show ?thesis
    by (simp add: a getAvailability_def Let_def peakFreeSlotsOf_def)
qed

section \<open>Clamping to the peak window\<close>

text \<open>
  C5. A free slot contributes to the peak-free list exactly when it passes the test
  \<open>slot.start < peakEnd\<close> and \<open>slot.end > peakStart\<close> and its clamped interval
  \<open>[max(slot.start, peakStart), min(slot.end, peakEnd))\<close> has positive length; for a slot
  and a peak window of positive length the test alone decides. The contribution is the
  clamped interval, slots contribute one by one in order, and no interval of the
  peak-free list has length zero. The slot 10:00 to 12:00 against the peak window 11:00
  to 13:00 gives 11:00 to 12:00, the slot 09:00 to 10:00 gives nothing.
\<close>

theorem peak_clamp_rule:
  "peakFreeSlotsOf peakStart peakEnd [slot] =
     (if start slot < peakEnd \<and> end' slot > peakStart \<and>
         max (start slot) peakStart < min (end' slot) peakEnd
      then [\<lparr>start = max (start slot) peakStart, end' = min (end' slot) peakEnd\<rparr>] else []) \<and>
   (start slot < end' slot \<and> peakStart < peakEnd \<longrightarrow>
      peakFreeSlotsOf peakStart peakEnd [slot] =
        (if start slot < peakEnd \<and> end' slot > peakStart
         then [\<lparr>start = max (start slot) peakStart, end' = min (end' slot) peakEnd\<rparr>] else [])) \<and>
   peakFreeSlotsOf peakStart peakEnd (slot # slots) =
     peakFreeSlotsOf peakStart peakEnd [slot] @ peakFreeSlotsOf peakStart peakEnd slots \<and>
   (\<forall>p \<in> set (peakFreeSlotsOf peakStart peakEnd slots). start p < end' p) \<and>
   peakFreeSlotsOf (11 * msPerHour) (13 * msPerHour)
     [\<lparr>start = 10 * msPerHour, end' = 12 * msPerHour\<rparr>] =
     [\<lparr>start = 11 * msPerHour, end' = 12 * msPerHour\<rparr>] \<and>
   peakFreeSlotsOf (11 * msPerHour) (13 * msPerHour)
     [\<lparr>start = 9 * msPerHour, end' = 10 * msPerHour\<rparr>] = []"
  by (auto simp: peakFreeSlotsOf_def msPerHour_def)

text \<open>The theorem at the claim's first example, in hours, followed by its second slot.\<close>

theorem peak_clamp_rule_witness:
  "start \<lparr>start = 10, end' = 12\<rparr> < end' \<lparr>start = 10, end' = 12\<rparr> \<and> (11::int) < 13 \<and>
   peakFreeSlotsOf 11 13 [\<lparr>start = 10, end' = 12\<rparr>] = [\<lparr>start = 11, end' = 12\<rparr>] \<and>
   peakFreeSlotsOf 11 13 [\<lparr>start = 10, end' = 12\<rparr>, \<lparr>start = 9, end' = 10\<rparr>] =
     [\<lparr>start = 11, end' = 12\<rparr>]"
proof -
  have h: "start \<lparr>start = 10, end' = 12\<rparr> < end' \<lparr>start = 10, end' = 12\<rparr> \<and> (11::int) < 13"
    by simp
  note r = peak_clamp_rule [of 11 13 "\<lparr>start = 10, end' = 12\<rparr>" "[\<lparr>start = 9, end' = 10\<rparr>]"]
  from r h have a: "peakFreeSlotsOf 11 13 [\<lparr>start = 10, end' = 12\<rparr>] = [\<lparr>start = 11, end' = 12\<rparr>]"
    by simp
  from r have "peakFreeSlotsOf 11 13 [\<lparr>start = 10, end' = 12\<rparr>, \<lparr>start = 9, end' = 10\<rparr>] =
      peakFreeSlotsOf 11 13 [\<lparr>start = 10, end' = 12\<rparr>] @
      peakFreeSlotsOf 11 13 [\<lparr>start = 9, end' = 10\<rparr>]"
    by blast
  also have "\<dots> = [\<lparr>start = 11, end' = 12\<rparr>]"
    unfolding a by (simp add: peakFreeSlotsOf_def)
  finally show ?thesis using h a by simp
qed

section \<open>Classification\<close>

text \<open>
  C6. When the calendar response has at least one event, the free slots of the result
  are those of \<open>calcFreeSlots\<close> on the day window, the peak-free list is these slots
  clamped to the peak window of the day (the weekend hours on Sunday and Saturday, the
  weekday hours otherwise), the case is A exactly when that clamped list is not empty
  and C exactly when it is empty. So in every result, also with no event, a non-empty
  peak-free list comes with case A.
\<close>

theorem case_A_iff_peak_free:
  "(events \<noteq> [] \<longrightarrow>
      freeSlots (getAvailability dayjs peakHours tz now label events) =
        calcFreeSlots (startOfDay dayjs tz now) (endOfDay dayjs tz now)
          (busyIntervalsOf events) tz \<and>
      peakFreeSlots (getAvailability dayjs peakHours tz now label events) =
        peakFreeSlotsOf
          (setHour dayjs tz (startOfDay dayjs tz now)
             (startHour (if dayOfWeek dayjs tz now = 0 \<or> dayOfWeek dayjs tz now = 6
                         then weekend peakHours else weekday peakHours)))
          (setHour dayjs tz (startOfDay dayjs tz now)
             (endHour (if dayOfWeek dayjs tz now = 0 \<or> dayOfWeek dayjs tz now = 6
                       then weekend peakHours else weekday peakHours)))
          (calcFreeSlots (startOfDay dayjs tz now) (endOfDay dayjs tz now)
             (busyIntervalsOf events) tz) \<and>
      (avCase (getAvailability dayjs peakHours tz now label events) = A \<longleftrightarrow>
         peakFreeSlots (getAvailability dayjs peakHours tz now label events) \<noteq> []) \<and>
      (avCase (getAvailability dayjs peakHours tz now label events) = C \<longleftrightarrow>
         peakFreeSlots (getAvailability dayjs peakHours tz now label events) = [])) \<and>
   (peakFreeSlots (getAvailability dayjs peakHours tz now label events) \<noteq> [] \<longrightarrow>
      avCase (getAvailability dayjs peakHours tz now label events) = A)"
  by (simp add: getAvailability_def Let_def)

text \<open>
  The theorem on Monday 2 March 2026, 08:00 in Tokyo, with the weekday peak window 17 to
  21: one reservation from 09:00 to 11:00 leaves the whole peak window free, case A; one
  reservation from 17:00 to 21:00 fills it, case C.
\<close>

theorem case_A_iff_peak_free_witness:
  "[\<lparr>evStart = Some 1772409600000, evEnd = Some 1772416800000\<rparr>] \<noteq> [] \<and>
   peakFreeSlots (getAvailability (dayjsFixedOffset 32400000) \<lparr>weekday = \<lparr>startHour = 17, endHour = 21\<rparr>, weekend = \<lparr>startHour = 13, endHour = 17\<rparr>\<rparr>
       ''Asia/Tokyo'' 1772406000000 ''3/2''
       [\<lparr>evStart = Some 1772409600000, evEnd = Some 1772416800000\<rparr>]) =
     [\<lparr>start = 1772438400000, end' = 1772452800000\<rparr>] \<and>
   avCase (getAvailability (dayjsFixedOffset 32400000) \<lparr>weekday = \<lparr>startHour = 17, endHour = 21\<rparr>, weekend = \<lparr>startHour = 13, endHour = 17\<rparr>\<rparr>
       ''Asia/Tokyo'' 1772406000000 ''3/2''
       [\<lparr>evStart = Some 1772409600000, evEnd = Some 1772416800000\<rparr>]) = A \<and>
   [\<lparr>evStart = Some 1772438400000, evEnd = Some 1772452800000\<rparr>] \<noteq> [] \<and>
   freeSlots (getAvailability (dayjsFixedOffset 32400000) \<lparr>weekday = \<lparr>startHour = 17, endHour = 21\<rparr>, weekend = \<lparr>startHour = 13, endHour = 17\<rparr>\<rparr>
       ''Asia/Tokyo'' 1772406000000 ''3/2''
       [\<lparr>evStart = Some 1772438400000, evEnd = Some 1772452800000\<rparr>]) =
     [\<lparr>start = 1772377200000, end' = 1772438400000\<rparr>,
      \<lparr>start = 1772452800000, end' = 1772463599999\<rparr>] \<and>
   peakFreeSlots (getAvailability (dayjsFixedOffset 32400000) \<lparr>weekday = \<lparr>startHour = 17, endHour = 21\<rparr>, weekend = \<lparr>startHour = 13, endHour = 17\<rparr>\<rparr>
       ''Asia/Tokyo'' 1772406000000 ''3/2''
       [\<lparr>evStart = Some 1772438400000, evEnd = Some 1772452800000\<rparr>]) = [] \<and>
   avCase (getAvailability (dayjsFixedOffset 32400000) \<lparr>weekday = \<lparr>startHour = 17, endHour = 21\<rparr>, weekend = \<lparr>startHour = 13, endHour = 17\<rparr>\<rparr>
       ''Asia/Tokyo'' 1772406000000 ''3/2''
       [\<lparr>evStart = Some 1772438400000, evEnd = Some 1772452800000\<rparr>]) = C"
proof -
  note defs = dayjsFixedOffset_def msPerDay_def msPerHour_def calcFreeSlots_def
    peakFreeSlotsOf_def
  note ta = case_A_iff_peak_free [where dayjs = "dayjsFixedOffset 32400000"
      and peakHours = "\<lparr>weekday = \<lparr>startHour = 17, endHour = 21\<rparr>, weekend = \<lparr>startHour = 13, endHour = 17\<rparr>\<rparr>"
      and tz = "''Asia/Tokyo''" and now = 1772406000000 and label = "''3/2''"
      and events = "[\<lparr>evStart = Some 1772409600000, evEnd = Some 1772416800000\<rparr>]"]
  note tc = case_A_iff_peak_free [where dayjs = "dayjsFixedOffset 32400000"
      and peakHours = "\<lparr>weekday = \<lparr>startHour = 17, endHour = 21\<rparr>, weekend = \<lparr>startHour = 13, endHour = 17\<rparr>\<rparr>"
      and tz = "''Asia/Tokyo''" and now = 1772406000000 and label = "''3/2''"
      and events = "[\<lparr>evStart = Some 1772438400000, evEnd = Some 1772452800000\<rparr>]"]
  have pa: "peakFreeSlots (getAvailability (dayjsFixedOffset 32400000) \<lparr>weekday = \<lparr>startHour = 17, endHour = 21\<rparr>, weekend = \<lparr>startHour = 13, endHour = 17\<rparr>\<rparr>
       ''Asia/Tokyo'' 1772406000000 ''3/2''
       [\<lparr>evStart = Some 1772409600000, evEnd = Some 1772416800000\<rparr>]) =
     [\<lparr>start = 1772438400000, end' = 1772452800000\<rparr>]"
    using ta by (simp add: defs)
  have ca: "avCase (getAvailability (dayjsFixedOffset 32400000) \<lparr>weekday = \<lparr>startHour = 17, endHour = 21\<rparr>, weekend = \<lparr>startHour = 13, endHour = 17\<rparr>\<rparr>
       ''Asia/Tokyo'' 1772406000000 ''3/2''
       [\<lparr>evStart = Some 1772409600000, evEnd = Some 1772416800000\<rparr>]) = A"
    using ta pa by simp
  have fc: "freeSlots (getAvailability (dayjsFixedOffset 32400000) \<lparr>weekday = \<lparr>startHour = 17, endHour = 21\<rparr>, weekend = \<lparr>startHour = 13, endHour = 17\<rparr>\<rparr>
       ''Asia/Tokyo'' 1772406000000 ''3/2''
       [\<lparr>evStart = Some 1772438400000, evEnd = Some 1772452800000\<rparr>]) =
     [\<lparr>start = 1772377200000, end' = 1772438400000\<rparr>,
      \<lparr>start = 1772452800000, end' = 1772463599999\<rparr>]"
    using tc by (simp add: defs)
  have pc: "peakFreeSlots (getAvailability (dayjsFixedOffset 32400000) \<lparr>weekday = \<lparr>startHour = 17, endHour = 21\<rparr>, weekend = \<lparr>startHour = 13, endHour = 17\<rparr>\<rparr>
       ''Asia/Tokyo'' 1772406000000 ''3/2''
       [\<lparr>evStart = Some 1772438400000, evEnd = Some 1772452800000\<rparr>]) = []"
    using tc by (simp add: defs)
  have cc: "avCase (getAvailability (dayjsFixedOffset 32400000) \<lparr>weekday = \<lparr>startHour = 17, endHour = 21\<rparr>, weekend = \<lparr>startHour = 13, endHour = 17\<rparr>\<rparr>
       ''Asia/Tokyo'' 1772406000000 ''3/2''
       [\<lparr>evStart = Some 1772438400000, evEnd = Some 1772452800000\<rparr>]) = C"
    using tc pc by simp
  from pa ca fc pc cc show ?thesis by simp
qed

section \<open>The day window\<close>

text \<open>
  C9, as amended. The day window that \<open>getAvailability\<close> passes to \<open>calcFreeSlots\<close> is
  \<open>now.startOf('day')\<close> and \<open>now.endOf('day')\<close> in the configured time zone. For a zone
  with a constant offset from UTC (such as the default \<open>Asia/Tokyo\<close>), in a process whose
  own zone has no daylight saving, \<open>dayStart\<close> is local 00:00:00.000 and \<open>dayEnd\<close> is local
  23:59:59.999 of the local day of the call, \<open>dayStart \<le> now \<le> dayEnd\<close>, and
  \<open>dayEnd - dayStart\<close> is 24 hours less one millisecond; the instant \<open>dayEnd\<close> itself, the
  last millisecond of the local day, is not in the half-open \<open>[dayStart, dayEnd)\<close>.
\<close>

theorem day_window_local_day:
  "(events \<noteq> [] \<longrightarrow>
      freeSlots (getAvailability dayjs peakHours tz now label events) =
        calcFreeSlots (startOfDay dayjs tz now) (endOfDay dayjs tz now)
          (busyIntervalsOf events) tz) \<and>
   (startOfDay (dayjsFixedOffset off) tz now + off) mod msPerDay = 0 \<and>
   (endOfDay (dayjsFixedOffset off) tz now + off) mod msPerDay =
     23 * msPerHour + 59 * 60000 + 59 * 1000 + 999 \<and>
   (startOfDay (dayjsFixedOffset off) tz now + off) div msPerDay = (now + off) div msPerDay \<and>
   (endOfDay (dayjsFixedOffset off) tz now + off) div msPerDay = (now + off) div msPerDay \<and>
   startOfDay (dayjsFixedOffset off) tz now \<le> now \<and>
   now \<le> endOfDay (dayjsFixedOffset off) tz now \<and>
   endOfDay (dayjsFixedOffset off) tz now - startOfDay (dayjsFixedOffset off) tz now =
     24 * msPerHour - 1 \<and>
   endOfDay (dayjsFixedOffset off) tz now \<notin>
     {startOfDay (dayjsFixedOffset off) tz now ..< endOfDay (dayjsFixedOffset off) tz now}"
proof -
  let ?s = "startOfDay (dayjsFixedOffset off) tz now"
  let ?e = "endOfDay (dayjsFixedOffset off) tz now"
  let ?q = "(now + off) div msPerDay"
  have sdef: "?s = now - (now + off) mod msPerDay" by (simp add: dayjsFixedOffset_def)
  have edef: "?e = ?s + (msPerDay - 1)" by (simp add: dayjsFixedOffset_def)
  have nz: "msPerDay \<noteq> 0" by (simp add: msPerDay_def)
  have s: "?s + off = msPerDay * ?q"
    unfolding sdef using minus_mod_eq_mult_div [of "now + off" msPerDay]
    by (simp add: algebra_simps)
  have e: "?e + off = (msPerDay - 1) + msPerDay * ?q"
    using s by (simp add: edef)
  have a: "(?s + off) mod msPerDay = 0" unfolding s by simp
  have "(?e + off) mod msPerDay = (msPerDay - 1) mod msPerDay"
    unfolding e by (rule mod_mult_self2)
  also have "\<dots> = 23 * msPerHour + 59 * 60000 + 59 * 1000 + 999"
    by (simp add: msPerDay_def msPerHour_def)
  finally have b: "(?e + off) mod msPerDay = 23 * msPerHour + 59 * 60000 + 59 * 1000 + 999" .
  have c: "(?s + off) div msPerDay = ?q" unfolding s using nz by simp
  have "(?e + off) div msPerDay = ?q + (msPerDay - 1) div msPerDay"
    unfolding e using nz by (rule div_mult_self2)
  also have "(msPerDay - 1) div msPerDay = 0" by (simp add: msPerDay_def)
  finally have d: "(?e + off) div msPerDay = ?q" by simp
  have m0: "0 \<le> (now + off) mod msPerDay" and m1: "(now + off) mod msPerDay < msPerDay"
    by (simp_all add: msPerDay_def)
  have f: "?s \<le> now" using m0 by (simp add: sdef)
  have g: "now \<le> ?e" using m1 by (simp add: edef sdef)
  have h: "?e - ?s = 24 * msPerHour - 1"
    by (simp add: edef msPerDay_def msPerHour_def)
  have i: "?e \<notin> {?s ..< ?e}" by simp
  have w: "events \<noteq> [] \<longrightarrow>
      freeSlots (getAvailability dayjs peakHours tz now label events) =
        calcFreeSlots (startOfDay dayjs tz now) (endOfDay dayjs tz now)
          (busyIntervalsOf events) tz"
    by (simp add: getAvailability_def Let_def)
  from w a b c d f g h i show ?thesis by blast
qed

text \<open>The theorem on Monday 2 March 2026, 08:00 in Tokyo, with one reservation.\<close>

theorem day_window_local_day_witness:
  "[\<lparr>evStart = Some 1772409600000, evEnd = Some 1772416800000\<rparr>] \<noteq> [] \<and>
   startOfDay (dayjsFixedOffset 32400000) ''Asia/Tokyo'' 1772406000000 = 1772377200000 \<and>
   endOfDay (dayjsFixedOffset 32400000) ''Asia/Tokyo'' 1772406000000 = 1772463599999 \<and>
   freeSlots (getAvailability (dayjsFixedOffset 32400000) \<lparr>weekday = \<lparr>startHour = 17, endHour = 21\<rparr>, weekend = \<lparr>startHour = 13, endHour = 17\<rparr>\<rparr>
       ''Asia/Tokyo'' 1772406000000 ''3/2''
       [\<lparr>evStart = Some 1772409600000, evEnd = Some 1772416800000\<rparr>]) =
     [\<lparr>start = 1772377200000, end' = 1772409600000\<rparr>,
      \<lparr>start = 1772416800000, end' = 1772463599999\<rparr>]"
proof -
  have s: "startOfDay (dayjsFixedOffset 32400000) ''Asia/Tokyo'' 1772406000000 = 1772377200000"
    by (simp add: dayjsFixedOffset_def msPerDay_def)
  have e: "endOfDay (dayjsFixedOffset 32400000) ''Asia/Tokyo'' 1772406000000 = 1772463599999"
    by (simp add: dayjsFixedOffset_def msPerDay_def)
  have b: "busyIntervalsOf [\<lparr>evStart = Some 1772409600000, evEnd = Some 1772416800000\<rparr>] =
      [(1772409600000, 1772416800000)]" by simp
  have c: "calcFreeSlots 1772377200000 1772463599999 [(1772409600000, 1772416800000)]
      ''Asia/Tokyo'' =
     [\<lparr>start = 1772377200000, end' = 1772409600000\<rparr>,
      \<lparr>start = 1772416800000, end' = 1772463599999\<rparr>]"
    by (simp add: calcFreeSlots_def)
  from day_window_local_day [where dayjs = "dayjsFixedOffset 32400000"
      and peakHours = "\<lparr>weekday = \<lparr>startHour = 17, endHour = 21\<rparr>, weekend = \<lparr>startHour = 13, endHour = 17\<rparr>\<rparr>"
      and tz = "''Asia/Tokyo''" and now = 1772406000000 and label = "''3/2''"
      and events = "[\<lparr>evStart = Some 1772409600000, evEnd = Some 1772416800000\<rparr>]"]
  have "freeSlots (getAvailability (dayjsFixedOffset 32400000) \<lparr>weekday = \<lparr>startHour = 17, endHour = 21\<rparr>, weekend = \<lparr>startHour = 13, endHour = 17\<rparr>\<rparr>
       ''Asia/Tokyo'' 1772406000000 ''3/2''
       [\<lparr>evStart = Some 1772409600000, evEnd = Some 1772416800000\<rparr>]) =
     calcFreeSlots (startOfDay (dayjsFixedOffset 32400000) ''Asia/Tokyo'' 1772406000000)
       (endOfDay (dayjsFixedOffset 32400000) ''Asia/Tokyo'' 1772406000000)
       (busyIntervalsOf [\<lparr>evStart = Some 1772409600000, evEnd = Some 1772416800000\<rparr>])
       ''Asia/Tokyo''"
    by blast
  then show ?thesis unfolding s e b c using s e by simp
qed

text \<open>
  The window is not 24 hours long: on 2 March 2026 in Tokyo it runs from 00:00:00.000 to
  23:59:59.999, which is 86399999 milliseconds.
\<close>

theorem day_window_counterexample:
  "freeSlots (getAvailability (dayjsFixedOffset 32400000) \<lparr>weekday = \<lparr>startHour = 17, endHour = 21\<rparr>, weekend = \<lparr>startHour = 13, endHour = 17\<rparr>\<rparr>
       ''Asia/Tokyo'' 1772406000000 ''3/2'' []) =
     [\<lparr>start = 1772377200000, end' = 1772463599999\<rparr>] \<and>
   endOfDay (dayjsFixedOffset 32400000) ''Asia/Tokyo'' 1772406000000 -
     startOfDay (dayjsFixedOffset 32400000) ''Asia/Tokyo'' 1772406000000 = 86399999 \<and>
   endOfDay (dayjsFixedOffset 32400000) ''Asia/Tokyo'' 1772406000000 -
     startOfDay (dayjsFixedOffset 32400000) ''Asia/Tokyo'' 1772406000000 \<noteq> 24 * msPerHour"
  by (simp add: getAvailability_def Let_def dayjsFixedOffset_def msPerDay_def msPerHour_def)

section \<open>The caller's array\<close>

text \<open>
  C10. \<open>calcFreeSlots\<close> called on the address of an array returns the free slots of that
  array's intervals and a store in which the caller's array, and every array that was
  there before the call, holds the same pairs in the same order; the sorted copy is a
  new array.
\<close>

theorem caller_array_unchanged:
  assumes "busyRef < length h"
  shows "\<exists>slots h'. calcFreeSlotsRef dayStart dayEnd busyRef tz h = Some (slots, h') \<and>
           slots = calcFreeSlots dayStart dayEnd (h ! busyRef) tz \<and>
           h' ! busyRef = h ! busyRef \<and>
           take (length h) h' = h"
  using assms
  by (simp add: calcFreeSlotsRef_def spreadCopy_def sortInPlace_def calcFreeSlots_def
      Let_def nth_append split: prod.split)

theorem caller_array_unchanged_witness:
  "(0::nat) < length [[(30, 50), (10, 40 :: int)]] \<and>
   calcFreeSlotsRef 0 100 0 ''Asia/Tokyo'' [[(30, 50), (10, 40)]] =
     Some ([\<lparr>start = 0, end' = 10\<rparr>, \<lparr>start = 50, end' = 100\<rparr>],
           [[(30, 50), (10, 40)], [(10, 40), (30, 50)]])"
proof -
  have h: "(0::nat) < length [[(30, 50), (10, 40 :: int)]]" by simp
  from caller_array_unchanged [OF h, of 0 100 "''Asia/Tokyo''"]
  obtain slots h' where
    r: "calcFreeSlotsRef 0 100 0 ''Asia/Tokyo'' [[(30, 50), (10, 40)]] = Some (slots, h')"
    and s: "slots = calcFreeSlots 0 100 ([[(30, 50), (10, 40)]] ! 0) ''Asia/Tokyo''"
    by blast
  have "h' = [[(30, 50), (10, 40)], [(10, 40), (30, 50)]]"
    using r by (simp add: calcFreeSlotsRef_def spreadCopy_def sortInPlace_def Let_def
        split: prod.splits)
  moreover have "slots = [\<lparr>start = 0, end' = 10\<rparr>, \<lparr>start = 50, end' = 100\<rparr>]"
    unfolding s by (simp add: calcFreeSlots_def)
  ultimately show ?thesis using r h by simp
qed

text \<open>Sorting the caller's array itself would have reordered it.\<close>

lemma sortInPlace_writes:
  "snd (sortInPlace 0 [[(30, 50), (10, 40)]]) ! 0 = [(10, 40), (30, 50)]"
  by (simp add: sortInPlace_def)

end
